theory Spec2Isabelle
  imports Main "HOL-Library.Sublist"
begin

section \<open>Python strings\<close>

text \<open>
  A Python \<open>str\<close> is a sequence of Unicode code points and \<open>len\<close> counts code points.
  The ellipsis glyph of the source is U+2026, outside the 8-bit \<open>char\<close> of HOL, so a
  string is modelled as the list of its code points.
\<close>

type_synonym ustring = "nat list"

definition ascii :: "string \<Rightarrow> ustring" where
  "ascii s = map of_char s"

text \<open>\<open>str(i)\<close> for an \<open>int\<close>, as an f-string field renders it: decimal, with a minus sign.\<close>

fun digits :: "nat \<Rightarrow> ustring" where
  "digits n = (if n < 10 then [48 + n] else digits (n div 10) @ [48 + n mod 10])"

declare digits.simps [simp del]

definition str_int :: "int \<Rightarrow> ustring" where
  "str_int i = (if i < 0 then 45 # digits (nat (- i)) else digits (nat i))"

text \<open>
  \<open>s.find(sub)\<close>: the index of the leftmost occurrence of \<open>sub\<close> in \<open>s\<close>, \<open>None\<close> for
  Python's \<open>-1\<close>.
\<close>

fun find_sub :: "'a list \<Rightarrow> 'a list \<Rightarrow> nat option" where
  "find_sub sub [] = (if sub = [] then Some 0 else None)"
| "find_sub sub (c # cs) =
     (if prefix sub (c # cs) then Some 0 else map_option Suc (find_sub sub cs))"

lemma find_sub_bound: "find_sub sub s = Some j \<Longrightarrow> j + length sub \<le> length s"
proof (induction s arbitrary: j)
  case Nil
  then show ?case by (simp split: if_splits)
next
  case (Cons c cs)
  show ?case
  proof (cases "prefix sub (c # cs)")
    case True
    with Cons.prems have "j = 0" by simp
    with prefix_length_le [OF True] show ?thesis by simp
  next
    case False
    with Cons.prems obtain k where k: "find_sub sub cs = Some k" "j = Suc k"
      by auto
    from Cons.IH [OF k(1)] k(2) show ?thesis by simp
  qed
qed

text \<open>
  \<open>s.replace(old, new)\<close> as CPython computes it: find the next occurrence of \<open>old\<close> from
  the current position, copy the text before it, emit \<open>new\<close>, and go on after the
  occurrence. An empty \<open>old\<close> matches between every two characters.
\<close>

function replace :: "'a list \<Rightarrow> 'a list \<Rightarrow> 'a list \<Rightarrow> 'a list" where
  "replace old new s =
     (if old = [] then new @ concat (map (\<lambda>c. c # new) s)
      else (case find_sub old s of
              None \<Rightarrow> s
            | Some j \<Rightarrow> take j s @ new @ replace old new (drop (j + length old) s)))"
  by pat_completeness auto
termination
proof (relation "measure (\<lambda>(old, new, s). length s)")
  show "wf (measure (\<lambda>(old, new, s). length s))" by simp
next
  fix old new s :: "'a list" and j
  assume "old \<noteq> []" and "find_sub old s = Some j"
  then have "j + length old \<le> length s" and "0 < length old"
    by (auto dest: find_sub_bound)
  then have "length s - (j + length old) < length s"
    by arith
  then have "length (drop (j + length old) s) < length s"
    by simp
  then show "((old, new, drop (j + length old) s), old, new, s)
      \<in> measure (\<lambda>(old, new, s). length s)"
    by simp
qed

declare replace.simps [simp del]

text \<open>
  \<open>str.isspace\<close> of one code point: the white-space table of CPython
  (\<open>_PyUnicode_IsWhitespace\<close>). \<open>s.strip()\<close> drops such code points at both ends.
\<close>

definition isspace :: "nat \<Rightarrow> bool" where
  "isspace c \<longleftrightarrow>
     (9 \<le> c \<and> c \<le> 13) \<or> (28 \<le> c \<and> c \<le> 32) \<or> c = 133 \<or> c = 160 \<or> c = 5760 \<or>
     (8192 \<le> c \<and> c \<le> 8202) \<or> c = 8232 \<or> c = 8233 \<or> c = 8239 \<or> c = 8287 \<or> c = 12288"

definition strip :: "ustring \<Rightarrow> ustring" where
  "strip s = rev (dropWhile isspace (rev (dropWhile isspace s)))"

text \<open>
  The slice \<open>s[:k]\<close>: a negative \<open>k\<close> counts from the end, and the bound is clamped to
  the string, so no slice raises.
\<close>

definition slice_to :: "int \<Rightarrow> 'a list \<Rightarrow> 'a list" where
  "slice_to k s = (if k < 0 then take (nat (int (length s) + k)) s else take (nat k) s)"

section \<open>The text built by \<open>post_to_twitter\<close>\<close>

definition MAX_TWEET_LENGTH :: int where
  "MAX_TWEET_LENGTH = 280"

definition ellipsis :: nat where
  "ellipsis = 8230"

text \<open>
  \<open>TELEGRAM_CHANNEL_USERNAME\<close> is \<open>os.getenv("CHANNEL_USERNAME")\<close>: a string, or \<open>None\<close>
  when the variable is unset, which an f-string renders as the text \<open>None\<close>.
\<close>

definition format_username :: "ustring option \<Rightarrow> ustring" where
  "format_username u = (case u of None \<Rightarrow> ascii ''None'' | Some s \<Rightarrow> s)"

definition telegram_post_link :: "ustring \<Rightarrow> int \<Rightarrow> ustring" where
  "telegram_post_link username post_id =
     ascii ''https://t.me/'' @ username @ ascii ''/'' @ str_int post_id"

definition link_length :: "ustring \<Rightarrow> int \<Rightarrow> int" where
  "link_length username post_id = int (length (telegram_post_link username post_id)) + 5"

definition allowed_text_length :: "ustring \<Rightarrow> int \<Rightarrow> int" where
  "allowed_text_length username post_id = MAX_TWEET_LENGTH - link_length username post_id"

definition mention :: "ustring \<Rightarrow> ustring" where
  "mention username = 64 # username"

definition clean_text :: "ustring \<Rightarrow> ustring \<Rightarrow> ustring" where
  "clean_text username txt = strip (replace (mention username) [] txt)"

definition trim_text :: "int \<Rightarrow> ustring \<Rightarrow> ustring" where
  "trim_text allowed clean =
     (if int (length clean) > allowed then slice_to (allowed - 1) clean @ [ellipsis]
      else clean)"

definition tweet_body :: "ustring \<Rightarrow> ustring \<Rightarrow> int \<Rightarrow> ustring" where
  "tweet_body username txt post_id =
     trim_text (allowed_text_length username post_id) (clean_text username txt)"

definition tweet_text :: "ustring \<Rightarrow> ustring \<Rightarrow> int \<Rightarrow> ustring" where
  "tweet_text username txt post_id =
     tweet_body username txt post_id @ [10, 10] @ telegram_post_link username post_id"

section \<open>Exceptions, log records and the outside world\<close>

text \<open>
  The exceptions the program can meet, by class. \<open>KeyboardInterrupt\<close> and \<open>SystemExit\<close>
  derive from \<open>BaseException\<close> only; every other class here derives from \<open>Exception\<close>.
  \<open>TimedOut\<close> is a subclass of \<open>telegram.error.NetworkError\<close>, which is a subclass of
  \<open>TelegramError\<close>. \<open>RetryError\<close> wraps the last failure of an exhausted retry.
\<close>

datatype exn =
    KeyboardInterrupt
  | SystemExit
  | NetworkError
  | TimedOut
  | TelegramError
  | OtherException string
  | RetryError exn

text \<open>\<open>isinstance(e, Exception)\<close>: what a clause \<open>except Exception\<close> catches.\<close>

fun is_Exception :: "exn \<Rightarrow> bool" where
  "is_Exception KeyboardInterrupt = False"
| "is_Exception SystemExit = False"
| "is_Exception _ = True"

text \<open>\<open>isinstance(e, NetworkError)\<close>: the test of \<open>retry_if_exception_type(NetworkError)\<close>.\<close>

fun is_NetworkError :: "exn \<Rightarrow> bool" where
  "is_NetworkError NetworkError = True"
| "is_NetworkError TimedOut = True"
| "is_NetworkError _ = False"

text \<open>
  An update as \<open>handle_new_message\<close> reads it: \<open>update.channel_post\<close> may be \<open>None\<close>, and
  so may the \<open>text\<close> of a channel post (a media-only post). The field \<open>text\<close> is named
  \<open>msg_text\<close> here.
\<close>

record message =
  msg_text :: "ustring option"
  message_id :: int

record update =
  channel_post :: "message option"

datatype level = INFO | WARNING | ERROR

text \<open>One constructor for each message the two functions log, with the value it formats.\<close>

datatype log_message =
    Posted_to_Twitter ustring
  | Error_posting_to_Twitter exn
  | Received_update_with_no_text update
  | Received_message ustring
  | Error_in_handle_new_message exn

text \<open>
  What the functions change: the records written to the logger, and the texts handed to
  \<open>twitter_api.create_tweet\<close>, one entry for each call, in order.
\<close>

record world =
  logged :: "(level \<times> log_message) list"
  tweets :: "ustring list"

definition logger :: "level \<Rightarrow> log_message \<Rightarrow> world \<Rightarrow> world" where
  "logger lvl m w = w\<lparr>logged := logged w @ [(lvl, m)]\<rparr>"

section \<open>The publisher and the dispatcher\<close>

text \<open>
  \<open>post_to_twitter(text, post_id)\<close>. The posting API is a parameter: \<open>create_tweet t\<close> is
  \<open>None\<close> when the call returns and \<open>Some e\<close> when it raises \<open>e\<close>. The handler
  \<open>except Exception\<close> logs and re-raises; an exception outside \<open>Exception\<close> passes it
  untouched.
\<close>

definition post_to_twitter ::
  "(ustring \<Rightarrow> exn option) \<Rightarrow> ustring option \<Rightarrow> ustring \<Rightarrow> int \<Rightarrow> world \<Rightarrow> (exn + unit) \<times> world"
where
  "post_to_twitter create_tweet username txt post_id w =
     (let t = tweet_text (format_username username) txt post_id;
          w1 = w\<lparr>tweets := tweets w @ [t]\<rparr>
      in case create_tweet t of
           None \<Rightarrow> (Inr (), logger INFO (Posted_to_Twitter t) w1)
         | Some e \<Rightarrow>
             if is_Exception e then (Inl e, logger ERROR (Error_posting_to_Twitter e) w1)
             else (Inl e, w1))"

text \<open>
  \<open>handle_new_message(update, context)\<close>. A missing channel post, a missing text and an
  empty text are all falsy and take the early return.
\<close>

definition handle_new_message ::
  "(ustring \<Rightarrow> exn option) \<Rightarrow> ustring option \<Rightarrow> update \<Rightarrow> world \<Rightarrow> (exn + unit) \<times> world"
where
  "handle_new_message create_tweet username upd w =
     (case channel_post upd of
        None \<Rightarrow> (Inr (), logger WARNING (Received_update_with_no_text upd) w)
      | Some post \<Rightarrow>
          (case msg_text post of
             None \<Rightarrow> (Inr (), logger WARNING (Received_update_with_no_text upd) w)
           | Some txt \<Rightarrow>
               if txt = [] then (Inr (), logger WARNING (Received_update_with_no_text upd) w)
               else
                 (case post_to_twitter create_tweet username txt (message_id post)
                         (logger INFO (Received_message txt) w) of
                    (Inr u, w') \<Rightarrow> (Inr (), w')
                  | (Inl e, w') \<Rightarrow>
                      if is_Exception e
                      then (Inr (), logger ERROR (Error_in_handle_new_message e) w')
                      else (Inl e, w'))))"

section \<open>The retry wrapper\<close>

datatype 'a outcome = Returns 'a | Raises exn

text \<open>
  Modelled from the spec: the loop behind the decorator \<open>@retry\<close> belongs to the
  \<open>tenacity\<close> library and is not in the sources; only its arguments are
  (\<open>stop_after_attempt(5)\<close>, \<open>retry_if_exception_type(NetworkError)\<close>, and a wait policy
  that changes no result). Following the spec: attempts are numbered from 1; a result is
  returned at once; an error outside the retried class propagates at once; an error of
  the retried class is retried until the attempt limit is reached, and then escalates.
  \<open>fn k\<close> is what the \<open>k\<close>-th call of the wrapped function does; the second component of
  the result is the number of calls made.
\<close>

function retrying ::
  "nat \<Rightarrow> (exn \<Rightarrow> bool) \<Rightarrow> (nat \<Rightarrow> 'a outcome) \<Rightarrow> nat \<Rightarrow> (exn + 'a) \<times> nat"
where
  "retrying stop_after retry_if fn attempt_number =
     (case fn attempt_number of
        Returns v \<Rightarrow> (Inr v, attempt_number)
      | Raises e \<Rightarrow>
          if \<not> retry_if e then (Inl e, attempt_number)
          else if attempt_number \<ge> stop_after then (Inl (RetryError e), attempt_number)
          else retrying stop_after retry_if fn (Suc attempt_number))"
  by pat_completeness auto
termination
  by (relation "measure (\<lambda>(stop_after, retry_if, fn, n). stop_after - n)") auto

declare retrying.simps [simp del]

text \<open>\<open>get_updates_with_retry(bot)\<close>: \<open>bot.get_updates()\<close> under the decorator.\<close>

definition get_updates_with_retry :: "(nat \<Rightarrow> 'a outcome) \<Rightarrow> (exn + 'a) \<times> nat" where
  "get_updates_with_retry get_updates = retrying 5 is_NetworkError get_updates 1"

section \<open>What the specification calls stripping\<close>

text \<open>
  The specification's step 4 in its own words: strip every literal occurrence of the
  mention token. Read from left to right, a position where the token starts is skipped
  over, token and all; any other character is kept.
\<close>

function strip_occurrences :: "'a list \<Rightarrow> 'a list \<Rightarrow> 'a list" where
  "strip_occurrences tok [] = []"
| "strip_occurrences tok (c # cs) =
     (if tok \<noteq> [] \<and> prefix tok (c # cs)
      then strip_occurrences tok (drop (length tok) (c # cs))
      else c # strip_occurrences tok cs)"
  by pat_completeness auto
termination
  by (relation "measure (\<lambda>(tok, s). length s)") (auto simp: Suc_diff_le neq_Nil_conv)

text \<open>
  The second half of step 4, trimming, is about white space. For a Python string that
  is any of these code points: the ASCII controls TAB to CR and FS to US, the space,
  NEL, the no-break space, and the Unicode space, line and paragraph separators.
\<close>

definition unicode_whitespace :: "nat list" where
  "unicode_whitespace =
     [9, 10, 11, 12, 13, 28, 29, 30, 31, 32, 133, 160, 5760,
      8192, 8193, 8194, 8195, 8196, 8197, 8198, 8199, 8200, 8201, 8202,
      8232, 8233, 8239, 8287, 12288]"

section \<open>Lengths of the text\<close>

lemma length_slice_to:
  "0 \<le> k \<Longrightarrow> k \<le> int (length s) \<Longrightarrow> int (length (slice_to k s)) = k"
  by (simp add: slice_to_def)

lemma length_trim_text_long:
  assumes "0 < allowed" and "allowed < int (length clean)"
  shows "int (length (trim_text allowed clean)) = allowed"
  using assms by (simp add: trim_text_def length_slice_to)

lemma length_trim_text_le:
  assumes "0 < allowed"
  shows "int (length (trim_text allowed clean)) \<le> allowed"
proof (cases "allowed < int (length clean)")
  case True
  with assms show ?thesis by (simp add: length_trim_text_long)
next
  case False
  then show ?thesis by (simp add: trim_text_def)
qed

text \<open>Evaluation of the text on inputs whose mention token does not occur.\<close>

lemma find_sub_absent: "x \<notin> set s \<Longrightarrow> find_sub (x # u) s = None"
  by (induction s) auto

lemma replace_absent: "x \<notin> set s \<Longrightarrow> replace (x # u) new s = s"
  by (simp add: replace.simps [of "x # u" new s] find_sub_absent)

lemma strip_no_space:
  assumes "s \<noteq> []" and "\<not> isspace (hd s)" and "\<not> isspace (last s)"
  shows "strip s = s"
proof -
  from assms(1,2) have 1: "dropWhile isspace s = s"
    by (cases s) auto
  from assms(1,3) have 2: "dropWhile isspace (rev s) = rev s"
    by (cases "rev s") (auto simp: last_rev [symmetric] hd_rev)
  from 1 2 show ?thesis by (simp add: strip_def)
qed

lemma allowed_mychannel_42: "allowed_text_length (ascii ''mychannel'') 42 = 250"
  by (simp add: allowed_text_length_def link_length_def telegram_post_link_def ascii_def
      str_int_def digits.simps MAX_TWEET_LENGTH_def)

lemma clean_text_xs: "clean_text (ascii ''mychannel'') (replicate 300 120) = replicate 300 120"
proof -
  have "replace (mention (ascii ''mychannel'')) [] (replicate 300 120) = replicate 300 120"
    unfolding mention_def by (rule replace_absent) simp
  moreover have "strip (replicate 300 120) = replicate 300 120"
    by (rule strip_no_space) (simp_all add: isspace_def)
  ultimately show ?thesis by (simp add: clean_text_def)
qed

lemma allowed_long_name: "allowed_text_length (replicate 260 97) 1 = 0"
  by (simp add: allowed_text_length_def link_length_def telegram_post_link_def ascii_def
      str_int_def digits.simps MAX_TWEET_LENGTH_def)

lemma clean_text_long_name_hello_world:
  "clean_text (replicate 260 97) (ascii ''hello world'') = ascii ''hello world''"
  by (simp add: clean_text_def mention_def replace.simps ascii_def strip_def isspace_def)

lemma clean_text_long_name_hello:
  "clean_text (replicate 260 97) (ascii ''hello'') = ascii ''hello''"
  by (simp add: clean_text_def mention_def replace.simps ascii_def strip_def isspace_def)

lemma allowed_mychannel_7: "allowed_text_length (ascii ''mychannel'') 7 = 251"
  by (simp add: allowed_text_length_def link_length_def telegram_post_link_def ascii_def
      str_int_def digits.simps MAX_TWEET_LENGTH_def)

lemma link_mychannel_42:
  "telegram_post_link (ascii ''mychannel'') 42 = ascii ''https://t.me/mychannel/42''"
  by (simp add: telegram_post_link_def ascii_def str_int_def digits.simps)

lemma clean_text_hello:
  "clean_text (ascii ''mychannel'') (ascii ''Hello @mychannel world'') = ascii ''Hello  world''"
  by (simp add: clean_text_def mention_def replace.simps ascii_def strip_def isspace_def)

lemma clean_text_extra:
  "clean_text (ascii ''mychannel'') (ascii ''@mychannelextra'') = ascii ''extra''"
  by (simp add: clean_text_def mention_def replace.simps ascii_def strip_def isspace_def)

lemma clean_text_breaking:
  "clean_text (ascii ''mychannel'') (ascii '' Breaking news '') = ascii ''Breaking news''"
  by (simp add: clean_text_def mention_def replace.simps ascii_def strip_def isspace_def)

text \<open>The text \<open>post_to_twitter\<close> hands to the posting API is \<open>tweet_text\<close>.\<close>

lemma post_to_twitter_calls_api:
  "tweets (snd (post_to_twitter create_tweet username txt post_id w)) =
     tweets w @ [tweet_text (format_username username) txt post_id]"
  by (simp add: post_to_twitter_def Let_def logger_def split: option.splits)

text \<open>
  C1, as amended. Whenever the allowed text length
  \<open>MAX_TWEET_LENGTH - (len(telegram_post_link) + 5)\<close> is at least 1, that is, whenever
  the link has at most 274 code points, the whole text (body, two newlines, link) has at
  most \<open>MAX_TWEET_LENGTH = 280\<close> code points.
\<close>

theorem tweet_text_within_limit:
  assumes "0 < allowed_text_length username post_id"
  shows "int (length (tweet_text username txt post_id)) \<le> MAX_TWEET_LENGTH"
proof -
  let ?link = "telegram_post_link username post_id"
  let ?allowed = "allowed_text_length username post_id"
  have body: "int (length (tweet_body username txt post_id)) \<le> ?allowed"
    unfolding tweet_body_def using assms by (rule length_trim_text_le)
  have "int (length (tweet_text username txt post_id)) =
      int (length (tweet_body username txt post_id)) + 2 + int (length ?link)"
    by (simp add: tweet_text_def)
  also have "\<dots> \<le> ?allowed + 2 + int (length ?link)"
    using body by simp
  also have "\<dots> = MAX_TWEET_LENGTH - 3"
    by (simp add: allowed_text_length_def link_length_def)
  finally show ?thesis by simp
qed

text \<open>The bound at work: a text of 300 letters \<open>x\<close> for post 42 of \<open>mychannel\<close>.\<close>

theorem tweet_text_within_limit_witness:
  "0 < allowed_text_length (ascii ''mychannel'') 42 \<and>
   int (length (tweet_text (ascii ''mychannel'') (replicate 300 120) 42)) \<le> MAX_TWEET_LENGTH"
proof -
  have h: "0 < allowed_text_length (ascii ''mychannel'') 42"
    by (simp add: allowed_mychannel_42)
  from tweet_text_within_limit [OF h] h show ?thesis by simp
qed

text \<open>
  C1 as stated, for every channel name, fails. With a channel name of 260 letters \<open>a\<close>
  and post 1 the link has 275 code points and the allowed length is 0; the slice
  \<open>clean_text[:-1]\<close> then drops one character only, and the text \<open>hello world\<close> goes out
  with 288 code points.
\<close>

theorem tweet_text_exceeds_limit:
  "allowed_text_length (replicate 260 97) 1 = 0 \<and>
   length (tweet_text (replicate 260 97) (ascii ''hello world'') 1) = 288 \<and>
   \<not> int (length (tweet_text (replicate 260 97) (ascii ''hello world'') 1)) \<le> MAX_TWEET_LENGTH"
proof -
  have body: "tweet_body (replicate 260 97) (ascii ''hello world'') 1 =
      ascii ''hello worl'' @ [ellipsis]"
    unfolding tweet_body_def allowed_long_name clean_text_long_name_hello_world
    by (simp add: trim_text_def slice_to_def ascii_def)
  have "length (tweet_text (replicate 260 97) (ascii ''hello world'') 1) = 288"
    unfolding tweet_text_def body
    by (simp add: telegram_post_link_def ascii_def str_int_def digits.simps)
  then show ?thesis by (simp add: allowed_long_name MAX_TWEET_LENGTH_def)
qed

text \<open>
  C2, as amended. When the allowed length is at least 1 and the cleaned text is longer,
  the body has exactly the allowed length and ends with the ellipsis: it is the first
  \<open>allowed_text_length - 1\<close> code points of the cleaned text and the ellipsis.
\<close>

theorem truncated_body:
  assumes "0 < allowed_text_length username post_id"
    and "allowed_text_length username post_id < int (length (clean_text username txt))"
  shows "int (length (tweet_body username txt post_id)) = allowed_text_length username post_id \<and>
    last (tweet_body username txt post_id) = ellipsis \<and>
    tweet_body username txt post_id =
      take (nat (allowed_text_length username post_id - 1)) (clean_text username txt) @ [ellipsis]"
  using assms by (simp add: tweet_body_def trim_text_def slice_to_def)

text \<open>
  The specification's scenario: 300 characters with no mention, post 42 of \<open>mychannel\<close>.
  The link has 25 code points, so the body has 250.
\<close>

theorem truncated_body_witness:
  "0 < allowed_text_length (ascii ''mychannel'') 42 \<and>
   allowed_text_length (ascii ''mychannel'') 42 <
     int (length (clean_text (ascii ''mychannel'') (replicate 300 120))) \<and>
   int (length (tweet_body (ascii ''mychannel'') (replicate 300 120) 42)) = 250 \<and>
   last (tweet_body (ascii ''mychannel'') (replicate 300 120) 42) = ellipsis"
proof -
  have a: "allowed_text_length (ascii ''mychannel'') 42 = 250"
    by (rule allowed_mychannel_42)
  have h1: "0 < allowed_text_length (ascii ''mychannel'') 42"
    by (simp add: a)
  have h2: "allowed_text_length (ascii ''mychannel'') 42 <
      int (length (clean_text (ascii ''mychannel'') (replicate 300 120)))"
    by (simp add: a clean_text_xs)
  from truncated_body [OF h1 h2] h1 h2 a show ?thesis by simp
qed

text \<open>
  C2 as stated, for every non-negative allowed length, fails at 0: the body cannot have
  length 0 and end with an ellipsis. There the code keeps all but the last character
  of the cleaned text and appends the ellipsis.
\<close>

theorem truncated_body_zero_allowance:
  "0 \<le> allowed_text_length (replicate 260 97) 1 \<and>
   allowed_text_length (replicate 260 97) 1 <
     int (length (clean_text (replicate 260 97) (ascii ''hello''))) \<and>
   tweet_body (replicate 260 97) (ascii ''hello'') 1 = ascii ''hell'' @ [ellipsis] \<and>
   int (length (tweet_body (replicate 260 97) (ascii ''hello'') 1)) \<noteq>
     allowed_text_length (replicate 260 97) 1"
  unfolding tweet_body_def allowed_long_name clean_text_long_name_hello
  by (simp add: trim_text_def slice_to_def ascii_def)

text \<open>
  C7. When the cleaned text is no longer than the allowed length, the body is the cleaned
  text itself, with nothing cut and no ellipsis added, and the text sent is the cleaned
  text, two newlines and the link.
\<close>

theorem short_text_verbatim:
  assumes "int (length (clean_text username txt)) \<le> allowed_text_length username post_id"
  shows "tweet_body username txt post_id = clean_text username txt \<and>
    tweet_text username txt post_id =
      clean_text username txt @ [10, 10] @ telegram_post_link username post_id"
  using assms by (simp add: tweet_text_def tweet_body_def trim_text_def)

theorem short_text_verbatim_witness:
  "int (length (clean_text (ascii ''mychannel'') (ascii '' Breaking news ''))) \<le>
     allowed_text_length (ascii ''mychannel'') 7 \<and>
   tweet_body (ascii ''mychannel'') (ascii '' Breaking news '') 7 = ascii ''Breaking news''"
proof -
  have c: "clean_text (ascii ''mychannel'') (ascii '' Breaking news '') = ascii ''Breaking news''"
    by (rule clean_text_breaking)
  have h: "int (length (clean_text (ascii ''mychannel'') (ascii '' Breaking news ''))) \<le>
      allowed_text_length (ascii ''mychannel'') 7"
    unfolding c allowed_mychannel_7 by (simp add: ascii_def)
  from short_text_verbatim [OF h] h c show ?thesis by simp
qed

text \<open>
  C8. The scenario \<open>raw_text = "Hello @mychannel world"\<close>, channel \<open>mychannel\<close>, post 42,
  limit 280: the cleaned text is \<open>Hello  world\<close>, with the two spaces the removed mention
  leaves, and the text sent is that, two newlines and \<open>https://t.me/mychannel/42\<close>.
\<close>

theorem scenario_hello_mychannel:
  "MAX_TWEET_LENGTH = 280 \<and>
   clean_text (ascii ''mychannel'') (ascii ''Hello @mychannel world'') = ascii ''Hello  world'' \<and>
   tweet_text (ascii ''mychannel'') (ascii ''Hello @mychannel world'') 42 =
     ascii ''Hello  world'' @ [10, 10] @ ascii ''https://t.me/mychannel/42''"
  unfolding tweet_text_def tweet_body_def clean_text_hello link_mychannel_42 allowed_mychannel_42
  by (simp add: MAX_TWEET_LENGTH_def trim_text_def ascii_def)

text \<open>
  C10. Removal works on substrings, not on whole handles: in \<open>@mychannelextra\<close> the
  mention \<open>@mychannel\<close> is a proper prefix of a longer handle, and the body that goes
  out is the rest of that handle, \<open>extra\<close>.
\<close>

theorem mention_removed_inside_longer_handle:
  "strict_prefix (mention (ascii ''mychannel'')) (ascii ''@mychannelextra'') \<and>
   clean_text (ascii ''mychannel'') (ascii ''@mychannelextra'') = ascii ''extra'' \<and>
   tweet_body (ascii ''mychannel'') (ascii ''@mychannelextra'') 42 = ascii ''extra'' \<and>
   tweet_text (ascii ''mychannel'') (ascii ''@mychannelextra'') 42 =
     ascii ''extra'' @ [10, 10] @ ascii ''https://t.me/mychannel/42''"
  unfolding tweet_text_def tweet_body_def clean_text_extra link_mychannel_42 allowed_mychannel_42
  by (simp add: trim_text_def ascii_def mention_def strict_prefix_def)

section \<open>Mention removal\<close>

lemma find_sub_None_strip:
  "tok \<noteq> [] \<Longrightarrow> find_sub tok s = None \<Longrightarrow> strip_occurrences tok s = s"
  by (induction s) (auto split: if_splits)

lemma find_sub_Some_strip:
  "tok \<noteq> [] \<Longrightarrow> find_sub tok s = Some j \<Longrightarrow>
   strip_occurrences tok s = take j s @ strip_occurrences tok (drop (j + length tok) s)"
proof (induction s arbitrary: j)
  case Nil
  then show ?case by simp
next
  case (Cons c cs)
  show ?case
  proof (cases "prefix tok (c # cs)")
    case True
    with Cons.prems have "j = 0" by simp
    with True Cons.prems(1) show ?thesis by simp
  next
    case False
    with Cons.prems obtain k where k: "find_sub tok cs = Some k" "j = Suc k"
      by auto
    from Cons.IH [OF Cons.prems(1) k(1)] False k(2) show ?thesis by simp
  qed
qed

text \<open>The search-and-copy loop of \<open>replace\<close> computes what the specification describes.\<close>

lemma replace_strip_occurrences:
  "tok \<noteq> [] \<Longrightarrow> replace tok [] s = strip_occurrences tok s"
proof (induction tok "[] :: 'a list" s rule: replace.induct)
  case (1 old s)
  show ?case
  proof (cases "find_sub old s")
    case None
    with 1(2) show ?thesis
      by (simp add: replace.simps [of old "[]" s] find_sub_None_strip)
  next
    case (Some j)
    with 1 show ?thesis
      by (simp add: replace.simps [of old "[]" s] find_sub_Some_strip)
  qed
qed

text \<open>A text in which the token does not occur is left as it is.\<close>

lemma strip_occurrences_absent:
  "\<not> sublist tok s \<Longrightarrow> strip_occurrences tok s = s"
proof (induction s)
  case Nil
  then show ?case by simp
next
  case (Cons c cs)
  from Cons.prems have "\<not> prefix tok (c # cs)" and "\<not> sublist tok cs"
    by (auto simp: sublist_Cons_right)
  with Cons.IH show ?case by simp
qed

lemma strip_occurrences_prefix:
  "tok \<noteq> [] \<Longrightarrow> prefix tok s \<Longrightarrow>
   strip_occurrences tok s = strip_occurrences tok (drop (length tok) s)"
  by (cases s) simp_all

lemma strip_occurrences_no_prefix:
  "\<not> prefix tok (c # cs) \<Longrightarrow>
   strip_occurrences tok (c # cs) = c # strip_occurrences tok cs"
  by simp

text \<open>
  A token whose first character does not come back inside it cannot overlap itself: an
  occurrence that starts before another one ends before it.
\<close>

lemma no_overlap:
  assumes x: "x \<notin> set u" and p: "prefix (x # u) ((c # cs) @ (x # u) @ b)"
  shows "prefix (x # u) (c # cs)"
proof (rule ccontr)
  assume n: "\<not> prefix (x # u) (c # cs)"
  from p have "prefix (x # u) (c # cs) \<or>
      (\<exists>r. r \<noteq> [] \<and> prefix r ((x # u) @ b) \<and> x # u = (c # cs) @ r)"
    unfolding prefix_append by (cases "x # u = c # cs") auto
  with n obtain r where r: "r \<noteq> []" "prefix r ((x # u) @ b)" "x # u = (c # cs) @ r"
    by blast
  from r(1,2) have "hd r = x" by (cases r) auto
  with r(1) have "x \<in> set r" by (cases r) auto
  with r(3) have "x \<in> set u" by auto
  with x show False by simp
qed

text \<open>
  Every occurrence goes, wherever it stands: for a channel name without \<open>@\<close>, cutting
  any one occurrence of the mention out of the text and stripping the two sides gives
  the same result as stripping the whole text.
\<close>

lemma strip_occurrences_cut:
  assumes x: "x \<notin> set u"
  shows "strip_occurrences (x # u) (a @ (x # u) @ b) =
         strip_occurrences (x # u) a @ strip_occurrences (x # u) b"
proof (induction "x # u" a rule: strip_occurrences.induct)
  case 1
  show ?case by simp
next
  case (2 c cs)
  show ?case
  proof (cases "prefix (x # u) (c # cs)")
    case True
    then have len: "length (x # u) \<le> length (c # cs)"
      by (rule prefix_length_le)
    from True have pre: "prefix (x # u) ((c # cs) @ (x # u) @ b)"
      by (rule prefix_prefix)
    have "strip_occurrences (x # u) ((c # cs) @ (x # u) @ b) =
        strip_occurrences (x # u) (drop (length (x # u)) ((c # cs) @ (x # u) @ b))"
      by (rule strip_occurrences_prefix [OF _ pre]) simp
    also have "drop (length (x # u)) ((c # cs) @ (x # u) @ b) =
        drop (length (x # u)) (c # cs) @ (x # u) @ b"
      using len by simp
    also have "strip_occurrences (x # u) \<dots> =
        strip_occurrences (x # u) (drop (length (x # u)) (c # cs)) @ strip_occurrences (x # u) b"
      using True by (intro 2(1)) simp
    also have "strip_occurrences (x # u) (drop (length (x # u)) (c # cs)) =
        strip_occurrences (x # u) (c # cs)"
      by (rule strip_occurrences_prefix [OF _ True, symmetric]) simp
    finally show ?thesis .
  next
    case False
    with no_overlap [OF x] have "\<not> prefix (x # u) ((c # cs) @ (x # u) @ b)"
      by blast
    then have np: "\<not> prefix (x # u) (c # (cs @ (x # u) @ b))"
      by simp
    have ih: "strip_occurrences (x # u) (cs @ (x # u) @ b) =
        strip_occurrences (x # u) cs @ strip_occurrences (x # u) b"
      using False by (intro 2(2)) blast
    have "strip_occurrences (x # u) ((c # cs) @ (x # u) @ b) =
        c # strip_occurrences (x # u) (cs @ (x # u) @ b)"
      using strip_occurrences_no_prefix [OF np] by simp
    also have "\<dots> = (c # strip_occurrences (x # u) cs) @ strip_occurrences (x # u) b"
      unfolding ih by (simp only: append_Cons)
    also have "c # strip_occurrences (x # u) cs = strip_occurrences (x # u) (c # cs)"
      by (rule strip_occurrences_no_prefix [OF False, symmetric])
    finally show ?thesis .
  qed
qed

lemma clean_text_cut:
  assumes "64 \<notin> set username"
  shows "replace (mention username) [] (a @ mention username @ b) =
         replace (mention username) [] a @ replace (mention username) [] b"
  using strip_occurrences_cut [OF assms]
  by (simp add: mention_def replace_strip_occurrences)

text \<open>The comparison is by code point, so a mention in another case stays.\<close>

lemma clean_text_case_sensitive:
  "clean_text (ascii ''mychannel'') (ascii ''Hi @MyChannel'') = ascii ''Hi @MyChannel''"
  by (simp add: clean_text_def mention_def replace.simps ascii_def strip_def isspace_def)

text \<open>
  \<open>strip\<close> removes white space at the two ends and nothing else: the text is the result
  between two runs of white space, and a non-empty result neither starts nor ends with
  white space.
\<close>

lemma strip_decompose:
  "\<exists>a b. s = a @ strip s @ b \<and> list_all isspace a \<and> list_all isspace b"
proof -
  let ?m = "dropWhile isspace s"
  have 1: "s = takeWhile isspace s @ ?m" by simp
  have "rev ?m = takeWhile isspace (rev ?m) @ dropWhile isspace (rev ?m)" by simp
  then have "?m = rev (dropWhile isspace (rev ?m)) @ rev (takeWhile isspace (rev ?m))"
    by (metis rev_append rev_rev_ident)
  then have 2: "?m = strip s @ rev (takeWhile isspace (rev ?m))"
    by (simp add: strip_def)
  have 3: "list_all isspace (takeWhile isspace s)"
    by (simp add: list_all_iff) (meson set_takeWhileD)
  have 4: "list_all isspace (rev (takeWhile isspace (rev ?m)))"
    by (simp add: list_all_iff) (meson set_takeWhileD)
  from 1 2 have "s = takeWhile isspace s @ strip s @ rev (takeWhile isspace (rev ?m))"
    by metis
  with 3 4 show ?thesis by blast
qed

lemma strip_ends:
  assumes "strip s \<noteq> []"
  shows "\<not> isspace (hd (strip s)) \<and> \<not> isspace (last (strip s))"
proof -
  let ?m = "dropWhile isspace s"
  let ?r = "dropWhile isspace (rev ?m)"
  from assms have r: "?r \<noteq> []" by (simp add: strip_def)
  then have "\<not> isspace (hd ?r)" by (rule hd_dropWhile)
  with r have l: "\<not> isspace (last (strip s))"
    by (simp add: strip_def last_rev)
  from r have "rev ?m \<noteq> []" by (metis dropWhile.simps(1))
  then have m: "?m \<noteq> []" by (metis rev.simps(1))
  then have hm: "\<not> isspace (hd ?m)" by (rule hd_dropWhile)
  have "rev ?m = takeWhile isspace (rev ?m) @ ?r" by simp
  then have "?m = rev ?r @ rev (takeWhile isspace (rev ?m))"
    by (metis rev_append rev_rev_ident)
  with r have "hd ?m = hd (rev ?r)" by (metis hd_append2 rev_is_Nil_conv)
  with hm have "\<not> isspace (hd (strip s))" by (simp add: strip_def)
  with l show ?thesis by simp
qed

lemma isspace_unicode_whitespace: "isspace c \<longleftrightarrow> c \<in> set unicode_whitespace"
  unfolding isspace_def unicode_whitespace_def
  by (simp only: set_simps insert_iff empty_iff) arith

lemma all_whitespace: "list_all isspace a \<Longrightarrow> set a \<subseteq> set unicode_whitespace"
  by (auto simp: list_all_iff isspace_unicode_whitespace)

text \<open>
  C6. Take the raw text and strip every occurrence of \<open>@\<close> followed by the channel name,
  comparing code points as they are. The cleaned text is what remains of that between
  a run of white space at the front and one at the back, and it neither starts nor ends
  with white space. The comparison with the allowed length is made on the cleaned
  text, whatever the length of the raw text, and so is the cut.
\<close>

theorem clean_text_strips_every_mention:
  "(\<exists>a b. strip_occurrences (ascii ''@'' @ username) txt = a @ clean_text username txt @ b \<and>
      set a \<subseteq> set unicode_whitespace \<and> set b \<subseteq> set unicode_whitespace) \<and>
   (clean_text username txt \<noteq> [] \<longrightarrow>
      hd (clean_text username txt) \<notin> set unicode_whitespace \<and>
      last (clean_text username txt) \<notin> set unicode_whitespace) \<and>
   (int (length (clean_text username txt)) \<le> allowed_text_length username post_id \<longrightarrow>
      tweet_body username txt post_id = clean_text username txt) \<and>
   (allowed_text_length username post_id < int (length (clean_text username txt)) \<longrightarrow>
      tweet_body username txt post_id =
        slice_to (allowed_text_length username post_id - 1) (clean_text username txt) @
          [ellipsis])"
proof -
  let ?tok = "ascii ''@'' @ username"
  have tok: "?tok = mention username" by (simp add: ascii_def mention_def)
  have "mention username \<noteq> []" by (simp add: mention_def)
  then have "replace (mention username) [] txt = strip_occurrences ?tok txt"
    unfolding tok by (rule replace_strip_occurrences)
  then have clean: "clean_text username txt = strip (strip_occurrences ?tok txt)"
    by (simp add: clean_text_def)
  obtain a b where ab: "strip_occurrences ?tok txt = a @ strip (strip_occurrences ?tok txt) @ b"
      "list_all isspace a" "list_all isspace b"
    using strip_decompose [of "strip_occurrences ?tok txt"] by blast
  then have 1: "\<exists>a b. strip_occurrences ?tok txt = a @ clean_text username txt @ b \<and>
      set a \<subseteq> set unicode_whitespace \<and> set b \<subseteq> set unicode_whitespace"
    unfolding clean using all_whitespace by blast
  have 2: "clean_text username txt \<noteq> [] \<longrightarrow>
      hd (clean_text username txt) \<notin> set unicode_whitespace \<and>
      last (clean_text username txt) \<notin> set unicode_whitespace"
    unfolding clean using strip_ends [of "strip_occurrences ?tok txt"]
    by (simp add: isspace_unicode_whitespace)
  have 3: "int (length (clean_text username txt)) \<le> allowed_text_length username post_id \<longrightarrow>
      tweet_body username txt post_id = clean_text username txt"
    by (simp add: tweet_body_def trim_text_def)
  have 4: "allowed_text_length username post_id < int (length (clean_text username txt)) \<longrightarrow>
      tweet_body username txt post_id =
        slice_to (allowed_text_length username post_id - 1) (clean_text username txt) @
          [ellipsis]"
    by (simp add: tweet_body_def trim_text_def)
  from 1 2 3 4 show ?thesis by blast
qed

text \<open>A text with white space at both ends and the mention twice.\<close>

lemma clean_text_two_mentions:
  "clean_text (ascii ''mychannel'') (ascii '' Hi @mychannel and @mychannel '') = ascii ''Hi  and''"
  by (simp add: clean_text_def mention_def replace.simps ascii_def strip_def isspace_def)

theorem clean_text_strips_every_mention_witness:
  "clean_text (ascii ''mychannel'') (ascii '' Hi @mychannel and @mychannel '') = ascii ''Hi  and'' \<and>
   hd (clean_text (ascii ''mychannel'') (ascii '' Hi @mychannel and @mychannel '')) \<notin>
     set unicode_whitespace \<and>
   int (length (clean_text (ascii ''mychannel'') (ascii '' Hi @mychannel and @mychannel ''))) \<le>
     allowed_text_length (ascii ''mychannel'') 42 \<and>
   tweet_body (ascii ''mychannel'') (ascii '' Hi @mychannel and @mychannel '') 42 =
     ascii ''Hi  and''"
proof -
  let ?u = "ascii ''mychannel''" and ?t = "ascii '' Hi @mychannel and @mychannel ''"
  have c: "clean_text ?u ?t = ascii ''Hi  and''" by (rule clean_text_two_mentions)
  have ne: "clean_text ?u ?t \<noteq> []" unfolding c by (simp add: ascii_def)
  have le: "int (length (clean_text ?u ?t)) \<le> allowed_text_length ?u 42"
    unfolding c allowed_mychannel_42 by (simp add: ascii_def)
  from clean_text_strips_every_mention [of ?u ?t 42] ne le c show ?thesis by simp
qed

text \<open>
  Stripping comes first: a raw text of 255 code points, above the allowed 250, whose
  cleaned text has 245 is sent whole.
\<close>

lemma long_raw_text_short_clean_text:
  "length (replicate 245 120 @ ascii ''@mychannel'') = 255 \<and>
   allowed_text_length (ascii ''mychannel'') 42 = 250 \<and>
   tweet_body (ascii ''mychannel'') (replicate 245 120 @ ascii ''@mychannel'') 42 =
     replicate 245 120"
proof -
  let ?u = "ascii ''mychannel''"
  have m: "ascii ''@mychannel'' = mention ?u" by (simp add: ascii_def mention_def)
  have at: "64 \<notin> set ?u" by (simp add: ascii_def)
  have "replace (mention ?u) [] (replicate 245 120 @ mention ?u @ []) =
      replace (mention ?u) [] (replicate 245 120) @ replace (mention ?u) [] []"
    using at by (rule clean_text_cut)
  also have "replace (mention ?u) [] (replicate 245 120) = replicate 245 120"
    unfolding mention_def by (rule replace_absent) simp
  also have "replace (mention ?u) [] [] = []"
    by (simp add: replace.simps mention_def)
  finally have r: "replace (mention ?u) [] (replicate 245 120 @ ascii ''@mychannel'') =
      replicate 245 120"
    by (simp add: m)
  have "strip (replicate 245 120) = replicate 245 120"
    by (rule strip_no_space) (simp_all add: isspace_def)
  with r have c: "clean_text ?u (replicate 245 120 @ ascii ''@mychannel'') = replicate 245 120"
    by (simp add: clean_text_def)
  show ?thesis
    unfolding tweet_body_def c allowed_mychannel_42
    by (simp add: trim_text_def ascii_def)
qed

section \<open>The dispatcher\<close>

text \<open>
  C9. For an update with no channel post, or a channel post with no text (or an empty
  one), \<open>handle_new_message\<close> logs one warning and returns normally; nothing else changes,
  so the posting API is not called, whatever it would have done.
\<close>

theorem handle_new_message_skips_without_text:
  assumes "channel_post upd = None \<or>
    (\<exists>post. channel_post upd = Some post \<and> (msg_text post = None \<or> msg_text post = Some []))"
  shows "handle_new_message create_tweet username upd w =
      (Inr (), logger WARNING (Received_update_with_no_text upd) w) \<and>
    tweets (snd (handle_new_message create_tweet username upd w)) = tweets w"
  using assms by (auto simp: handle_new_message_def logger_def)

text \<open>A media-only post, with a posting API that would raise on any call.\<close>

theorem handle_new_message_skips_without_text_witness:
  "handle_new_message (\<lambda>t. Some KeyboardInterrupt) (Some (ascii ''mychannel''))
      \<lparr>channel_post = Some \<lparr>msg_text = None, message_id = 7\<rparr>\<rparr> \<lparr>logged = [], tweets = []\<rparr> =
    (Inr (), \<lparr>logged = [(WARNING, Received_update_with_no_text
        \<lparr>channel_post = Some \<lparr>msg_text = None, message_id = 7\<rparr>\<rparr>)], tweets = []\<rparr>)"
  using handle_new_message_skips_without_text
    [where upd = "\<lparr>channel_post = Some \<lparr>msg_text = None, message_id = 7\<rparr>\<rparr>"
       and create_tweet = "\<lambda>t. Some KeyboardInterrupt"
       and username = "Some (ascii ''mychannel'')"
       and w = "\<lparr>logged = [], tweets = []\<rparr>"]
  by (simp add: logger_def)

text \<open>
  C5. Whatever the update and whatever error the publish call fails with,
  \<open>handle_new_message\<close> returns normally and raises nothing to its caller. The errors
  of the posting API are exceptions derived from \<open>Exception\<close>, which is what the
  hypothesis says of \<open>create_tweet\<close>. When the publish call raises, the exception is
  logged at error level by \<open>post_to_twitter\<close>, caught by the dispatcher, and logged at
  error level there.
\<close>

theorem handle_new_message_contains_exceptions:
  assumes "\<forall>t e. create_tweet t = Some e \<longrightarrow> is_Exception e"
  shows "fst (handle_new_message create_tweet username upd w) = Inr () \<and>
    (\<forall>post txt e.
       channel_post upd = Some post \<and> msg_text post = Some txt \<and> txt \<noteq> [] \<and>
       create_tweet (tweet_text (format_username username) txt (message_id post)) = Some e \<longrightarrow>
       logged (snd (handle_new_message create_tweet username upd w)) =
         logged w @ [(INFO, Received_message txt), (ERROR, Error_posting_to_Twitter e),
                     (ERROR, Error_in_handle_new_message e)])"
  using assms
  by (auto simp: handle_new_message_def post_to_twitter_def Let_def logger_def
      split: option.splits)

text \<open>A posting API that answers every call with an error derived from \<open>Exception\<close>.\<close>

theorem handle_new_message_contains_exceptions_witness:
  "fst (handle_new_message (\<lambda>t. Some (OtherException ''403 Forbidden''))
      (Some (ascii ''mychannel''))
      \<lparr>channel_post = Some \<lparr>msg_text = Some (ascii ''hello''), message_id = 7\<rparr>\<rparr>
      \<lparr>logged = [], tweets = []\<rparr>) = Inr () \<and>
   logged (snd (handle_new_message (\<lambda>t. Some (OtherException ''403 Forbidden''))
      (Some (ascii ''mychannel''))
      \<lparr>channel_post = Some \<lparr>msg_text = Some (ascii ''hello''), message_id = 7\<rparr>\<rparr>
      \<lparr>logged = [], tweets = []\<rparr>)) =
     [(INFO, Received_message (ascii ''hello'')),
      (ERROR, Error_posting_to_Twitter (OtherException ''403 Forbidden'')),
      (ERROR, Error_in_handle_new_message (OtherException ''403 Forbidden''))]"
proof -
  let ?api = "\<lambda>t :: ustring. Some (OtherException ''403 Forbidden'')"
  have h: "\<forall>t e. ?api t = Some e \<longrightarrow> is_Exception e" by simp
  have ne: "ascii ''hello'' \<noteq> []" by (simp add: ascii_def)
  from handle_new_message_contains_exceptions [OF h,
      where upd = "\<lparr>channel_post = Some \<lparr>msg_text = Some (ascii ''hello''), message_id = 7\<rparr>\<rparr>"
        and username = "Some (ascii ''mychannel'')" and w = "\<lparr>logged = [], tweets = []\<rparr>"] ne
  show ?thesis by simp
qed

text \<open>
  An interrupt is not a failure of the publish call: \<open>KeyboardInterrupt\<close> and
  \<open>SystemExit\<close> are outside \<open>Exception\<close>, pass both handlers and reach the caller, where
  \<open>main\<close> stops the process.
\<close>

lemma handle_new_message_passes_non_Exception:
  assumes "channel_post upd = Some post" and "msg_text post = Some txt" and "txt \<noteq> []"
    and "create_tweet (tweet_text (format_username username) txt (message_id post)) = Some e"
    and "\<not> is_Exception e"
  shows "fst (handle_new_message create_tweet username upd w) = Inl e"
  using assms
  by (simp add: handle_new_message_def post_to_twitter_def Let_def logger_def)

section \<open>The retry policy\<close>

lemma retrying_props:
  "case retrying m p f n of (r, k) \<Rightarrow>
     n \<le> k \<and> (n \<le> m \<longrightarrow> k \<le> m) \<and>
     (\<forall>i. n \<le> i \<and> i < k \<longrightarrow> (\<exists>e. f i = Raises e \<and> p e)) \<and>
     (case f k of
        Returns v \<Rightarrow> r = Inr v
      | Raises e \<Rightarrow> if p e then m \<le> k \<and> r = Inl (RetryError e) else r = Inl e)"
proof (induction m p f n rule: retrying.induct)
  case (1 m p f n)
  show ?case
  proof (cases "f n")
    case (Returns v)
    then show ?thesis by (auto simp: retrying.simps [of m p f n])
  next
    case (Raises e)
    show ?thesis
    proof (cases "p e \<and> n < m")
      case False
      with Raises show ?thesis by (auto simp: retrying.simps [of m p f n])
    next
      case True
      with Raises have eq: "retrying m p f n = retrying m p f (Suc n)"
        by (simp add: retrying.simps [of m p f n])
      from True Raises have ih:
        "case retrying m p f (Suc n) of (r, k) \<Rightarrow>
           Suc n \<le> k \<and> (Suc n \<le> m \<longrightarrow> k \<le> m) \<and>
           (\<forall>i. Suc n \<le> i \<and> i < k \<longrightarrow> (\<exists>e. f i = Raises e \<and> p e)) \<and>
           (case f k of
              Returns v \<Rightarrow> r = Inr v
            | Raises e \<Rightarrow> if p e then m \<le> k \<and> r = Inl (RetryError e) else r = Inl e)"
        by (intro 1) auto
      obtain r k where rk: "retrying m p f (Suc n) = (r, k)" by force
      have "\<And>i. n \<le> i \<Longrightarrow> i < k \<Longrightarrow> \<exists>e. f i = Raises e \<and> p e"
      proof -
        fix i assume "n \<le> i" "i < k"
        show "\<exists>e. f i = Raises e \<and> p e"
        proof (cases "i = n")
          case True
          with Raises \<open>p e \<and> n < m\<close> show ?thesis by simp
        next
          case False
          with \<open>n \<le> i\<close> have "Suc n \<le> i" by simp
          with ih rk \<open>i < k\<close> show ?thesis by simp
        qed
      qed
      with ih rk True show ?thesis unfolding eq by auto
    qed
  qed
qed

text \<open>
  C3. \<open>get_updates_with_retry\<close> calls the fetch at least once and at most 5 times. Every
  call before the last one raised a \<open>NetworkError\<close>. The last call decides the result: a
  return value is returned; an error that is not a \<open>NetworkError\<close> propagates as it is;
  a \<open>NetworkError\<close> can be last only at the fifth call, where the retry gives up. So
  when the first three calls raise a \<open>NetworkError\<close> and the fourth returns, exactly 4
  calls are made and its value is returned.
\<close>

theorem get_updates_with_retry_policy:
  "(case get_updates_with_retry get_updates of (r, made) \<Rightarrow>
      1 \<le> made \<and> made \<le> 5 \<and>
      (\<forall>i. 1 \<le> i \<and> i < made \<longrightarrow> (\<exists>e. get_updates i = Raises e \<and> is_NetworkError e)) \<and>
      (case get_updates made of
         Returns v \<Rightarrow> r = Inr v
       | Raises e \<Rightarrow>
           if is_NetworkError e then made = 5 \<and> r = Inl (RetryError e) else r = Inl e)) \<and>
   ((\<forall>i. 1 \<le> i \<and> i \<le> 3 \<longrightarrow> (\<exists>e. get_updates i = Raises e \<and> is_NetworkError e)) \<and>
      get_updates 4 = Returns u \<longrightarrow>
    get_updates_with_retry get_updates = (Inr u, 4))"
proof -
  obtain r made where rc: "get_updates_with_retry get_updates = (r, made)"
    by force
  from retrying_props [where m = 5 and p = is_NetworkError and f = get_updates and n = 1] rc
  have bound: "1 \<le> made" "made \<le> 5"
    and earlier: "\<forall>i. 1 \<le> i \<and> i < made \<longrightarrow> (\<exists>e. get_updates i = Raises e \<and> is_NetworkError e)"
    and final: "case get_updates made of
         Returns v \<Rightarrow> r = Inr v
       | Raises e \<Rightarrow>
           if is_NetworkError e then made = 5 \<and> r = Inl (RetryError e) else r = Inl e"
    by (auto simp: get_updates_with_retry_def split: outcome.splits)
  have scenario: "r = Inr u \<and> made = 4"
    if three: "\<forall>i. 1 \<le> i \<and> i \<le> 3 \<longrightarrow> (\<exists>e. get_updates i = Raises e \<and> is_NetworkError e)"
      and fourth: "get_updates 4 = Returns u"
  proof -
    have "\<not> made \<le> 3"
    proof
      assume "made \<le> 3"
      with three bound obtain e where "get_updates made = Raises e" "is_NetworkError e"
        by blast
      with final have "made = 5" by simp
      with \<open>made \<le> 3\<close> show False by simp
    qed
    moreover have "made \<noteq> 5"
    proof
      assume "made = 5"
      with earlier have "\<exists>e. get_updates 4 = Raises e \<and> is_NetworkError e" by simp
      with fourth show False by simp
    qed
    ultimately have "made = 4" using bound by arith
    with final fourth show ?thesis by simp
  qed
  from bound earlier final scenario show ?thesis
    unfolding rc by simp
qed

text \<open>Three network errors, then the updates.\<close>

theorem get_updates_with_retry_policy_witness:
  "get_updates_with_retry (\<lambda>k. if k \<le> 3 then Raises NetworkError else Returns (7::nat)) =
     (Inr 7, 4)"
  using get_updates_with_retry_policy
    [where get_updates = "\<lambda>k. if k \<le> 3 then Raises NetworkError else Returns (7::nat)"
       and u = 7]
  by simp

text \<open>Further runs of the policy: five network errors, and an error of another class.\<close>

lemma get_updates_with_retry_exhausted:
  "get_updates_with_retry (\<lambda>k. Raises TimedOut :: nat outcome) = (Inl (RetryError TimedOut), 5)"
  by (simp add: get_updates_with_retry_def retrying.simps eval_nat_numeral)

lemma get_updates_with_retry_other_error:
  "get_updates_with_retry (\<lambda>k. Raises TelegramError :: nat outcome) = (Inl TelegramError, 1)"
  by (simp add: get_updates_with_retry_def retrying.simps)

end
